theory Spec2Isabelle
  imports Main "HOL-Library.Word" "HOL-Library.Sublist"
begin

section \<open>JavaScript strings\<close>

text \<open>
  A JavaScript string is a sequence of 16-bit code units; regular expressions without the
  \<^verbatim>\<open>u\<close> flag and \<^verbatim>\<open>String.prototype.trim\<close> work on code units. String literals of
  the source are ASCII and are written \<open>js ''...''\<close>.
\<close>

type_synonym jschar = "16 word"
type_synonym jsstring = "jschar list"

definition js :: "string \<Rightarrow> jsstring" where
  "js s = map of_char s"

text \<open>The one-character string \<^verbatim>\<open>'\n'\<close>.\<close>

definition nl :: jsstring where
  "nl = [10]"

text \<open>ECMAScript LineTerminator: LF, CR, U+2028, U+2029.\<close>

definition is_line_terminator :: "jschar \<Rightarrow> bool" where
  "is_line_terminator c \<longleftrightarrow> c = 10 \<or> c = 13 \<or> c = 8232 \<or> c = 8233"

text \<open>
  ECMAScript WhiteSpace: TAB, VT, FF, SP, NBSP, U+FEFF and the code points of category Zs
  (U+1680, U+2000 to U+200A, U+202F, U+205F, U+3000).
\<close>

definition is_white_space :: "jschar \<Rightarrow> bool" where
  "is_white_space c \<longleftrightarrow>
     c = 9 \<or> c = 11 \<or> c = 12 \<or> c = 32 \<or> c = 160 \<or> c = 5760 \<or>
     (8192 \<le> c \<and> c \<le> 8202) \<or> c = 8239 \<or> c = 8287 \<or> c = 12288 \<or> c = 65279"

definition trimmable :: "jschar \<Rightarrow> bool" where
  "trimmable c \<longleftrightarrow> is_white_space c \<or> is_line_terminator c"

text \<open>\<^verbatim>\<open>String.prototype.trim\<close>: white space and line terminators go from both ends.\<close>

definition trim :: "jsstring \<Rightarrow> jsstring" where
  "trim s = rev (dropWhile trimmable (rev (dropWhile trimmable s)))"

text \<open>\<^verbatim>\<open>Array.prototype.join\<close> on an array of strings.\<close>

fun join :: "jsstring \<Rightarrow> jsstring list \<Rightarrow> jsstring" where
  "join sep [] = []"
| "join sep [x] = x"
| "join sep (x # y # ys) = x @ sep @ join sep (y # ys)"

text \<open>
  Interpolation \<^verbatim>\<open>${e}\<close> of a value that is a string or \<^verbatim>\<open>undefined\<close>, and the
  idiom \<^verbatim>\<open>e || ''\<close> on such a value.
\<close>

definition interpolate :: "jsstring option \<Rightarrow> jsstring" where
  "interpolate v = (case v of None \<Rightarrow> js ''undefined'' | Some s \<Rightarrow> s)"

definition or_empty :: "jsstring option \<Rightarrow> jsstring" where
  "or_empty v = (case v of None \<Rightarrow> [] | Some s \<Rightarrow> s)"

text \<open>Exceptions of the JavaScript runtime that the modelled functions can let escape.\<close>

datatype error = TypeError | SyntaxError

section \<open>Regular expressions\<close>

text \<open>
  The two regular expressions of the source are sequences of literal text, the lazy
  quantifiers \<^verbatim>\<open>[\s\S]*?\<close> and \<^verbatim>\<open>.*?\<close>, capture groups, and one lookahead whose
  alternatives are a literal and \<^verbatim>\<open>$\<close>. The matcher below is the backtracking matcher of
  ECMAScript for that fragment: the rest of the item list is the continuation, a lazy
  quantifier tries the continuation first and consumes one more character only when it
  fails.
\<close>

datatype cls = AnyChar | NotLineTerminator

datatype atom = ALit jsstring | AEnd

datatype item =
    Lit jsstring
  | LazyStar cls
  | GroupOpen nat
  | GroupClose nat
  | Lookahead "atom list"

fun accepts :: "cls \<Rightarrow> jschar \<Rightarrow> bool" where
  "accepts AnyChar c = True"
| "accepts NotLineTerminator c = (\<not> is_line_terminator c)"

fun ahead :: "jsstring \<Rightarrow> atom \<Rightarrow> bool" where
  "ahead s (ALit l) = prefix l s"
| "ahead s AEnd = (s = [])"

type_synonym captures = "nat \<rightharpoonup> jsstring"

text \<open>
  \<open>rmatch items s starts caps\<close> matches at the beginning of the remaining input \<open>s\<close>;
  \<open>starts\<close> holds the input that remained when each group was opened. The result is
  the captures and the input left after the match.
\<close>

fun rmatch :: "item list \<Rightarrow> jsstring \<Rightarrow> captures \<Rightarrow> captures \<Rightarrow> (captures \<times> jsstring) option" where
  "rmatch [] s starts caps = Some (caps, s)"
| "rmatch (Lit l # r) s starts caps =
     (if prefix l s then rmatch r (drop (length l) s) starts caps else None)"
| "rmatch (LazyStar c # r) s starts caps =
     (case rmatch r s starts caps of
        Some res \<Rightarrow> Some res
      | None \<Rightarrow>
          (case s of
             [] \<Rightarrow> None
           | x # xs \<Rightarrow> if accepts c x then rmatch (LazyStar c # r) xs starts caps else None))"
| "rmatch (GroupOpen n # r) s starts caps = rmatch r s (starts(n \<mapsto> s)) caps"
| "rmatch (GroupClose n # r) s starts caps =
     (case starts n of
        None \<Rightarrow> None
      | Some t \<Rightarrow> rmatch r s starts (caps(n \<mapsto> take (length t - length s) t)))"
| "rmatch (Lookahead as # r) s starts caps =
     (if list_ex (ahead s) as then rmatch r s starts caps else None)"

text \<open>
  \<^verbatim>\<open>RegExp.prototype.exec\<close> from a position: the match is tried at every index from
  there to the end of the input, the end included, and the first success wins.
\<close>

fun search :: "item list \<Rightarrow> jsstring \<Rightarrow> (captures \<times> jsstring) option" where
  "search p [] = rmatch p [] Map.empty Map.empty"
| "search p (x # xs) =
     (case rmatch p (x # xs) Map.empty Map.empty of
        Some res \<Rightarrow> Some res
      | None \<Rightarrow> search p xs)"

section \<open>Encoder\<close>

record Turn =
  role :: jsstring
  content :: jsstring
  channel :: "jsstring option"

definition TOKENS_START :: jsstring where
  "TOKENS_START = js ''<|start|>''"

definition TOKENS_END :: jsstring where
  "TOKENS_END = js ''<|end|>''"

definition TOKENS_MESSAGE :: jsstring where
  "TOKENS_MESSAGE = js ''<|message|>''"

definition TOKENS_CHANNEL :: jsstring where
  "TOKENS_CHANNEL = js ''<|channel|>''"

text \<open>
  \<^verbatim>\<open>renderHarmonyMessage(role, content, channel?)\<close>: the conditional
  \<^verbatim>\<open>channel ? TOKENS.CHANNEL + channel : ''\<close> takes the first branch when the channel is
  a non-empty string.
\<close>

definition renderHarmonyMessage :: "jsstring \<Rightarrow> jsstring \<Rightarrow> jsstring option \<Rightarrow> jsstring" where
  "renderHarmonyMessage rl cont chan =
     TOKENS_START @ TOKENS_MESSAGE @ rl @
     (case chan of
        None \<Rightarrow> []
      | Some ch \<Rightarrow> if ch \<noteq> [] then TOKENS_CHANNEL @ ch else []) @
     TOKENS_END @ cont"

definition encodeHarmonyConversation :: "Turn list \<Rightarrow> jsstring" where
  "encodeHarmonyConversation messages =
     join nl (map (\<lambda>m. renderHarmonyMessage (role m) (content m) (channel m)) messages)"



section \<open>Tool declarations as namespaces\<close>

text \<open>
  The tools are objects in the OpenAI format; a field the source reads through
  \<^verbatim>\<open>?.\<close>, \<^verbatim>\<open>||\<close> or an interpolation may be absent. \<open>properties\<close> lists the entries
  in the order of \<^verbatim>\<open>Object.entries\<close>; every entry is an object, so the model has no
  counterpart of a \<^verbatim>\<open>null\<close> entry, on which \<^verbatim>\<open>v.type\<close> throws.
\<close>

record Property =
  ptype :: "jsstring option"
  pdescription :: "jsstring option"

record Parameters =
  properties :: "(jsstring \<times> Property) list option"

record FunctionDecl =
  fname :: jsstring
  fdescription :: "jsstring option"
  fparameters :: "Parameters option"

record Tool =
  func :: "FunctionDecl option"

text \<open>The line of one parameter, the template literal of both renderers.\<close>

definition property_line :: "jsstring \<times> Property \<Rightarrow> jsstring" where
  "property_line kv =
     (case kv of (k, v) \<Rightarrow>
        js ''  '' @ k @ js '': '' @ interpolate (ptype v) @ js ''; // '' @ or_empty (pdescription v))"

text \<open>\<^verbatim>\<open>Array.prototype.map\<close> with a callback that may throw: the first exception escapes.\<close>

fun map_throwing :: "('a \<Rightarrow> error + 'b) \<Rightarrow> 'a list \<Rightarrow> error + 'b list" where
  "map_throwing f [] = Inr []"
| "map_throwing f (x # xs) =
     (case f x of
        Inl e \<Rightarrow> Inl e
      | Inr y \<Rightarrow> (case map_throwing f xs of Inl e \<Rightarrow> Inl e | Inr ys \<Rightarrow> Inr (y # ys)))"

text \<open>
  \<^verbatim>\<open>toolsToTypeScriptNamespace\<close>: \<^verbatim>\<open>t.function?.parameters?.properties || {}\<close> tolerates
  absent fields, \<^verbatim>\<open>t.function.name\<close> then throws a TypeError when \<^verbatim>\<open>t.function\<close> is
  absent.
\<close>

definition namespace_block :: "Tool \<Rightarrow> error + jsstring" where
  "namespace_block t =
     (let p = (case func t of
                 None \<Rightarrow> []
               | Some f \<Rightarrow>
                   (case fparameters f of
                      None \<Rightarrow> []
                    | Some ps \<Rightarrow> (case properties ps of None \<Rightarrow> [] | Some kvs \<Rightarrow> kvs)));
          props = join nl (map property_line p)
      in case func t of
           None \<Rightarrow> Inl TypeError
         | Some f \<Rightarrow> Inr (js ''namespace '' @ fname f @ js '' {'' @ nl @ props @ nl @ js ''}''))"

definition toolsToTypeScriptNamespace :: "Tool list \<Rightarrow> error + jsstring" where
  "toolsToTypeScriptNamespace tools =
     (case map_throwing namespace_block tools of
        Inl e \<Rightarrow> Inl e
      | Inr blocks \<Rightarrow> Inr (join (nl @ nl) blocks))"

text \<open>
  \<^verbatim>\<open>convertToolsToTypeScript\<close> of the improvement guide reads
  \<^verbatim>\<open>tool.function.parameters\<close> and \<^verbatim>\<open>params.properties\<close> without \<^verbatim>\<open>?.\<close> and adds a
  documentation comment to the block.
\<close>

definition namespace_block_doc :: "Tool \<Rightarrow> error + jsstring" where
  "namespace_block_doc tool =
     (case func tool of
        None \<Rightarrow> Inl TypeError
      | Some f \<Rightarrow>
          (case fparameters f of
             None \<Rightarrow> Inl TypeError
           | Some params \<Rightarrow>
               (let props = join nl (map property_line
                              (case properties params of None \<Rightarrow> [] | Some kvs \<Rightarrow> kvs))
                in Inr (js ''namespace '' @ fname f @ js '' {'' @ nl @
                        js ''  /**'' @ nl @
                        js ''   * '' @ or_empty (fdescription f) @ nl @
                        js ''   */'' @ nl @
                        props @ nl @ js ''}''))))"

definition convertToolsToTypeScript :: "Tool list \<Rightarrow> error + jsstring" where
  "convertToolsToTypeScript tools =
     (case map_throwing namespace_block_doc tools of
        Inl e \<Rightarrow> Inl e
      | Inr blocks \<Rightarrow> Inr (join (nl @ nl) blocks))"

section \<open>Parser\<close>

record 'v ToolCall =
  name :: jsstring
  parameters :: 'v

record 'v Parsed =
  analysis :: "jsstring option"
  commentary :: "jsstring option"
  final :: "jsstring option"
  toolCalls :: "'v ToolCall list option"

text \<open>
  The regular expression built in \<^verbatim>\<open>section\<close>, and written out three times in
  \<^verbatim>\<open>parseHarmonyResponse\<close>:
  \<^verbatim>\<open><\|channel\|>CH<\|end\|>([\s\S]*?)(?=<\|channel\||$)\<close>.
  The channel name is spliced into the pattern; the three names the source passes are
  letters only, so they stand for themselves.
\<close>

definition channel_marker :: "jsstring \<Rightarrow> jsstring" where
  "channel_marker ch = js ''<|channel|>'' @ ch @ js ''<|end|>''"

definition channel_boundary :: jsstring where
  "channel_boundary = js ''<|channel|''"

definition channel_re :: "jsstring \<Rightarrow> item list" where
  "channel_re ch =
     [Lit (channel_marker ch),
      GroupOpen 1, LazyStar AnyChar, GroupClose 1,
      Lookahead [ALit channel_boundary, AEnd]]"

text \<open>
  \<^verbatim>\<open>(text.match(re) || [])[1]?.trim()\<close>: \<^verbatim>\<open>undefined\<close> when there is no match or no
  first capture.
\<close>

definition section_of :: "jsstring \<Rightarrow> jsstring \<Rightarrow> jsstring option" where
  "section_of text ch =
     (case search (channel_re ch) text of
        None \<Rightarrow> None
      | Some (caps, rest) \<Rightarrow> map_option trim (caps 1))"

text \<open>
  \<^verbatim>\<open>/<tool_call>[\s\S]*?<tool_name>(.*?)<\/tool_name>[\s\S]*?<parameters>([\s\S]*?)<\/parameters>[\s\S]*?<\/tool_call>/g\<close>
\<close>

definition tool_re :: "item list" where
  "tool_re =
     [Lit (js ''<tool_call>''), LazyStar AnyChar,
      Lit (js ''<tool_name>''), GroupOpen 1, LazyStar NotLineTerminator, GroupClose 1,
      Lit (js ''</tool_name>''), LazyStar AnyChar,
      Lit (js ''<parameters>''), GroupOpen 2, LazyStar AnyChar, GroupClose 2,
      Lit (js ''</parameters>''), LazyStar AnyChar,
      Lit (js ''</tool_call>'')]"

lemma rmatch_rest_length:
  "rmatch p s starts caps = Some (caps', rest) \<Longrightarrow> length rest \<le> length s"
proof (induction p s starts caps rule: rmatch.induct)
  case (3 c r s starts caps)
  then show ?case
    by (cases "rmatch r s starts caps"; cases s) (auto split: if_splits)
qed (auto split: if_splits option.splits simp: prefix_def)

lemma search_rest:
  "search p s = Some (caps, rest) \<Longrightarrow> \<exists>k. rmatch p (drop k s) Map.empty Map.empty = Some (caps, rest)"
proof (induction s)
  case Nil
  then show ?case by simp
next
  case (Cons x xs)
  show ?case
  proof (cases "rmatch p (x # xs) Map.empty Map.empty")
    case None
    with Cons obtain k where "rmatch p (drop k xs) Map.empty Map.empty = Some (caps, rest)"
      by auto
    then have "rmatch p (drop (Suc k) (x # xs)) Map.empty Map.empty = Some (caps, rest)"
      by simp
    then show ?thesis by blast
  next
    case (Some res)
    with Cons.prems have "rmatch p (drop 0 (x # xs)) Map.empty Map.empty = Some (caps, rest)"
      by simp
    then show ?thesis by blast
  qed
qed

lemma search_tool_re_shorter:
  assumes "search tool_re s = Some (caps, rest)"
  shows "length rest < length s"
proof -
  from search_rest [OF assms] obtain k
    where k: "rmatch tool_re (drop k s) Map.empty Map.empty = Some (caps, rest)" by blast
  let ?l = "js ''<tool_call>''"
  have pre: "prefix ?l (drop k s)"
    using k by (auto simp: tool_re_def split: if_splits)
  then have "rmatch (tl tool_re) (drop (length ?l) (drop k s)) Map.empty Map.empty = Some (caps, rest)"
    using k by (simp add: tool_re_def)
  then have "length rest \<le> length (drop (length ?l) (drop k s))"
    by (rule rmatch_rest_length)
  moreover have "length ?l \<le> length (drop k s)"
    using pre by (rule prefix_length_le)
  moreover have "length ?l = 11"
    by (simp add: js_def)
  ultimately show ?thesis by simp
qed

text \<open>
  The loop \<^verbatim>\<open>while ((m = re.exec(text)) !== null)\<close> of \<^verbatim>\<open>parseHarmony\<close>. The next
  \<^verbatim>\<open>exec\<close> starts where the last match ended, so the loop runs on the input that is
  left. \<open>json_parse\<close> stands for \<^verbatim>\<open>JSON.parse\<close>: \<open>None\<close> is its SyntaxError. The body
  is inside \<^verbatim>\<open>try { ... } catch {}\<close>: a TypeError of \<^verbatim>\<open>m[i].trim()\<close> on a group that
  did not take part and the SyntaxError of \<^verbatim>\<open>JSON.parse\<close> both leave \<open>toolCalls\<close>
  as it was.
\<close>

function tool_loop :: "(jsstring \<Rightarrow> 'v option) \<Rightarrow> jsstring \<Rightarrow> 'v ToolCall list \<Rightarrow> 'v ToolCall list" where
  "tool_loop json_parse s acc =
     (case search tool_re s of
        None \<Rightarrow> acc
      | Some (m, rest) \<Rightarrow>
          tool_loop json_parse rest
            (case (m 1, m 2) of
               (Some m1, Some m2) \<Rightarrow>
                 (case json_parse (trim m2) of
                    None \<Rightarrow> acc
                  | Some v \<Rightarrow> acc @ [\<lparr>name = trim m1, parameters = v\<rparr>])
             | _ \<Rightarrow> acc))"
  by pat_completeness auto
termination
  by (relation "measure (\<lambda>(json_parse, s, acc). length s)")
     (auto dest: search_tool_re_shorter)

declare tool_loop.simps [simp del]

definition parseHarmony :: "(jsstring \<Rightarrow> 'v option) \<Rightarrow> jsstring \<Rightarrow> 'v Parsed" where
  "parseHarmony json_parse text =
     (let out = \<lparr>analysis = section_of text (js ''analysis''),
                 commentary = section_of text (js ''commentary''),
                 final = section_of text (js ''final''),
                 toolCalls = None\<rparr>;
          calls = tool_loop json_parse text []
      in if calls \<noteq> [] then out\<lparr>toolCalls := Some calls\<rparr> else out)"

text \<open>
  \<^verbatim>\<open>parseHarmonyResponse\<close> of the improvement guide: the same two regular expressions,
  but the loop body is not inside \<^verbatim>\<open>try\<close>, so an exception of the body ends the call.
\<close>

function tool_loop_throwing ::
  "(jsstring \<Rightarrow> 'v option) \<Rightarrow> jsstring \<Rightarrow> 'v ToolCall list \<Rightarrow> error + 'v ToolCall list" where
  "tool_loop_throwing json_parse s acc =
     (case search tool_re s of
        None \<Rightarrow> Inr acc
      | Some (m, rest) \<Rightarrow>
          (case (m 1, m 2) of
             (Some m1, Some m2) \<Rightarrow>
               (case json_parse (trim m2) of
                  None \<Rightarrow> Inl SyntaxError
                | Some v \<Rightarrow>
                    tool_loop_throwing json_parse rest (acc @ [\<lparr>name = trim m1, parameters = v\<rparr>]))
           | _ \<Rightarrow> Inl TypeError))"
  by pat_completeness auto
termination
  by (relation "measure (\<lambda>(json_parse, s, acc). length s)")
     (auto dest: search_tool_re_shorter)

declare tool_loop_throwing.simps [simp del]

text \<open>
  \<^verbatim>\<open>const m = response.match(re); if (m) result.field = m[1].trim();\<close>: the value the
  field gets, \<open>None\<close> when it stays unset. \<^verbatim>\<open>m[1].trim()\<close> throws a TypeError when
  the group did not take part in the match.
\<close>

definition match_group_trimmed :: "item list \<Rightarrow> jsstring \<Rightarrow> error + jsstring option" where
  "match_group_trimmed re response =
     (case search re response of
        None \<Rightarrow> Inr None
      | Some (m, rest) \<Rightarrow> (case m 1 of None \<Rightarrow> Inl TypeError | Some g \<Rightarrow> Inr (Some (trim g))))"

definition parseHarmonyResponse :: "(jsstring \<Rightarrow> 'v option) \<Rightarrow> jsstring \<Rightarrow> error + 'v Parsed" where
  "parseHarmonyResponse json_parse response =
     (case match_group_trimmed (channel_re (js ''analysis'')) response of
        Inl e \<Rightarrow> Inl e
      | Inr analysisMatch \<Rightarrow>
     (case match_group_trimmed (channel_re (js ''commentary'')) response of
        Inl e \<Rightarrow> Inl e
      | Inr commentaryMatch \<Rightarrow>
     (case match_group_trimmed (channel_re (js ''final'')) response of
        Inl e \<Rightarrow> Inl e
      | Inr finalMatch \<Rightarrow>
     (case tool_loop_throwing json_parse response [] of
        Inl e \<Rightarrow> Inl e
      | Inr calls \<Rightarrow>
          Inr \<lparr>analysis = analysisMatch, commentary = commentaryMatch, final = finalMatch,
               toolCalls = (if calls \<noteq> [] then Some calls else None)\<rparr>))))"

section \<open>Inputs of the examples\<close>


text \<open>A declaration named \<^verbatim>\<open>search\<close> with no parameters.\<close>

definition search_tool :: Tool where
  "search_tool =
     \<lparr>func = Some \<lparr>fname = js ''search'', fdescription = None, fparameters = None\<rparr>\<rparr>"

text \<open>
  A declaration named \<^verbatim>\<open>lookup\<close> with a parameter \<^verbatim>\<open>q\<close> of type string and a
  parameter \<^verbatim>\<open>n\<close> that declares no type and has the empty description.
\<close>

definition lookup_properties :: "(jsstring \<times> Property) list" where
  "lookup_properties =
     [(js ''q'', \<lparr>ptype = Some (js ''string''), pdescription = Some (js ''Query'')\<rparr>),
      (js ''n'', \<lparr>ptype = None, pdescription = Some []\<rparr>)]"

definition lookup_function :: FunctionDecl where
  "lookup_function =
     \<lparr>fname = js ''lookup'', fdescription = Some (js ''Look up''),
      fparameters = Some \<lparr>properties = Some lookup_properties\<rparr>\<rparr>"

definition lookup_tool :: Tool where
  "lookup_tool = \<lparr>func = Some lookup_function\<rparr>"

text \<open>\<^verbatim>\<open>text.split('\n')\<close>, to speak about the lines of a rendered text.\<close>

fun split_lines :: "jsstring \<Rightarrow> jsstring list" where
  "split_lines [] = [[]]"
| "split_lines (c # cs) =
     (if c = 10 then [] # split_lines cs
      else (case split_lines cs of [] \<Rightarrow> [[c]] | l # ls \<Rightarrow> (c # l) # ls))"

text \<open>
  \<^verbatim>\<open>JSON.parse\<close> is a parameter of the parsers. The closed examples below take for it a
  decoder that accepts the payload \<^verbatim>\<open>{"x": 1}\<close> of the examples and rejects every other
  text. The other texts the examples hand to it begin with \<^verbatim>\<open>{not json\<close> or are the
  cut-off \<^verbatim>\<open>{"x": "\<close>, and \<^verbatim>\<open>JSON.parse\<close> rejects them too.
\<close>

definition example_json_parse :: "jsstring \<Rightarrow> (jsstring \<times> int) list option" where
  "example_json_parse s = (if s = js ''{\"x\": 1}'' then Some [(js ''x'', 1)] else None)"

text \<open>The three channels, the name each has in the wire text and its field of the result.\<close>

datatype channel_id = Analysis | Commentary | Final

fun channel_literal :: "channel_id \<Rightarrow> jsstring" where
  "channel_literal Analysis = js ''analysis''"
| "channel_literal Commentary = js ''commentary''"
| "channel_literal Final = js ''final''"

fun channel_field :: "channel_id \<Rightarrow> 'v Parsed \<Rightarrow> jsstring option" where
  "channel_field Analysis p = analysis p"
| "channel_field Commentary p = commentary p"
| "channel_field Final p = final p"

text \<open>
  A tool-call block as a response holds it: the five texts between its six tags. The
  block is complete when each text ends at the tag that follows it, that is, when the
  text does not hold that tag itself, and the name holds no line terminator.
\<close>

record Block =
  before_name :: jsstring
  block_name :: jsstring
  before_parameters :: jsstring
  payload :: jsstring
  after_parameters :: jsstring

definition block_text :: "Block \<Rightarrow> jsstring" where
  "block_text b =
     js ''<tool_call>'' @ before_name b @
     js ''<tool_name>'' @ block_name b @ js ''</tool_name>'' @ before_parameters b @
     js ''<parameters>'' @ payload b @ js ''</parameters>'' @ after_parameters b @
     js ''</tool_call>''"

definition complete_block :: "Block \<Rightarrow> bool" where
  "complete_block b \<longleftrightarrow>
     \<not> sublist (js ''<tool_name>'') (before_name b) \<and>
     \<not> sublist (js ''</tool_name>'') (block_name b) \<and>
     (\<forall>c \<in> set (block_name b). \<not> is_line_terminator c) \<and>
     \<not> sublist (js ''<parameters>'') (before_parameters b) \<and>
     \<not> sublist (js ''</parameters>'') (payload b) \<and>
     \<not> sublist (js ''</tool_call>'') (after_parameters b)"

text \<open>A response made of blocks, each after a text that holds no opening tag.\<close>

definition blocks_text :: "(jsstring \<times> Block) list \<Rightarrow> jsstring" where
  "blocks_text items = concat (map (\<lambda>(gap, b). gap @ block_text b) items)"

text \<open>
  The blocks of the examples, laid out as the system prompt of \<^verbatim>\<open>buildSystemMessage\<close>
  asks for them: a newline after each tag.
\<close>

definition malformed_block :: Block where
  "malformed_block =
     \<lparr>before_name = nl, block_name = js ''search'', before_parameters = nl,
      payload = nl @ js ''{not json'' @ nl, after_parameters = nl\<rparr>"

definition get_time_block :: Block where
  "get_time_block =
     \<lparr>before_name = nl, block_name = js ''get_time'', before_parameters = nl,
      payload = nl @ js ''{\"x\": 1}'' @ nl, after_parameters = nl\<rparr>"

definition malformed_response :: jsstring where
  "malformed_response =
     js ''<tool_call>\<newline><tool_name>search</tool_name>\<newline><parameters>\<newline>{not json\<newline></parameters>\<newline></tool_call>''"

definition mixed_response :: jsstring where
  "mixed_response =
     js ''<tool_call>\<newline><tool_name>search</tool_name>\<newline><parameters>\<newline>{not json\<newline></parameters>\<newline></tool_call>\<newline><tool_call>\<newline><tool_name>get_time</tool_name>\<newline><parameters>\<newline>{\"x\": 1}\<newline></parameters>\<newline></tool_call>''"

text \<open>A response with two analysis channels.\<close>

definition repeated_analysis :: jsstring where
  "repeated_analysis = js ''<|channel|>analysis<|end|>first<|channel|>analysis<|end|>second''"

text \<open>
  A response with two analysis channels where the text \<^verbatim>\<open><|channel|\<close>, without the
  closing \<^verbatim>\<open>>\<close> of the token, stands in the first.
\<close>

definition open_boundary_response :: jsstring where
  "open_boundary_response =
     js ''<|channel|>analysis<|end|>first <|channel|second <|channel|>analysis<|end|>third''"

text \<open>
  Two responses of two blocks, the first with the payload \<^verbatim>\<open>{not json\<close>. In the one
  the payload of the second block is the object \<^verbatim>\<open>{"x": "</parameters>"}\<close>, whose
  string quotes a tag; in the other the first block lacks its \<^verbatim>\<open></parameters>\<close>.
\<close>

definition quoted_tag_response :: jsstring where
  "quoted_tag_response =
     js ''<tool_call>\<newline><tool_name>search</tool_name>\<newline><parameters>\<newline>{not json\<newline></parameters>\<newline></tool_call>\<newline><tool_call>\<newline><tool_name>get_time</tool_name>\<newline><parameters>\<newline>{\"x\": \"</parameters>\"}\<newline></parameters>\<newline></tool_call>''"

definition unclosed_parameters_response :: jsstring where
  "unclosed_parameters_response =
     js ''<tool_call>\<newline><tool_name>search</tool_name>\<newline><parameters>\<newline>{not json\<newline></tool_call>\<newline><tool_call>\<newline><tool_name>get_time</tool_name>\<newline><parameters>\<newline>{\"x\": 1}\<newline></parameters>\<newline></tool_call>''"

text \<open>An assistant turn whose content quotes the channel token.\<close>

definition boundary_turn :: Turn where
  "boundary_turn =
     \<lparr>role = js ''assistant'', content = js ''The <|channel|> token opens a channel'',
      channel = Some (js ''final'')\<rparr>"

text \<open>A tag whose first character does not occur in it again cannot overlap itself.\<close>

definition lead_unique :: "jsstring \<Rightarrow> bool" where
  "lead_unique T = (case T of [] \<Rightarrow> False | a # t \<Rightarrow> a \<notin> set t)"

section \<open>The encoder\<close>






section \<open>The renderer of tool declarations\<close>

text \<open>
  Claim C6 says that a catalog with two declarations named \<^verbatim>\<open>search\<close> cannot be
  built. The source has no catalog constructor: the tools are an array, and the
  renderer takes the array with both declarations and renders both.
\<close>

theorem duplicate_tool_names_accepted:
  "toolsToTypeScriptNamespace [search_tool, search_tool] =
     Inr (js ''namespace search {\<newline>\<newline>}\<newline>\<newline>namespace search {\<newline>\<newline>}'')"
  by (simp add: toolsToTypeScriptNamespace_def namespace_block_def search_tool_def nl_def js_def)

text \<open>
  Claim C6, amended. The source has no step that builds a catalog and no
  DuplicateToolName error: the array of declarations goes to the renderer as it is. Two
  declarations that each render alone render together as their two blocks, a blank line
  between, whether or not they have the same name; nothing makes the names unique.
\<close>

theorem duplicate_names_rendered:
  assumes "toolsToTypeScriptNamespace [t1] = Inr b1"
    and "toolsToTypeScriptNamespace [t2] = Inr b2"
  shows "toolsToTypeScriptNamespace [t1, t2] = Inr (b1 @ nl @ nl @ b2)"
  using assms by (auto simp: toolsToTypeScriptNamespace_def split: sum.splits)

text \<open>The array of two declarations named \<^verbatim>\<open>search\<close>.\<close>

theorem duplicate_names_rendered_witness:
  "toolsToTypeScriptNamespace [search_tool] = Inr (js ''namespace search {\<newline>\<newline>}'') \<and>
   toolsToTypeScriptNamespace [search_tool, search_tool] =
     Inr (js ''namespace search {\<newline>\<newline>}'' @ nl @ nl @ js ''namespace search {\<newline>\<newline>}'')"
proof -
  have 1: "toolsToTypeScriptNamespace [search_tool] = Inr (js ''namespace search {\<newline>\<newline>}'')"
    by (simp add: toolsToTypeScriptNamespace_def namespace_block_def search_tool_def nl_def js_def)
  from duplicate_names_rendered [OF 1 1] 1 show ?thesis by simp
qed

lemma split_lines_line: "10 \<notin> set l \<Longrightarrow> split_lines (l @ 10 # s) = l # split_lines s"
  by (induction l) auto

lemma split_lines_last: "10 \<notin> set l \<Longrightarrow> split_lines l = [l]"
  by (induction l) auto

lemma split_lines_join:
  "ls \<noteq> [] \<Longrightarrow> \<forall>l \<in> set ls. 10 \<notin> set l \<Longrightarrow>
   split_lines (join nl ls @ 10 # s) = ls @ split_lines s"
proof (induction ls)
  case Nil
  then show ?case by simp
next
  case (Cons x xs)
  show ?case
  proof (cases xs)
    case Nil
    with Cons.prems show ?thesis by (simp add: split_lines_line)
  next
    case (Cons y ys)
    with Cons.IH Cons.prems
    have "split_lines (join nl xs @ 10 # s) = xs @ split_lines s" by simp
    moreover have "10 \<notin> set x" using Cons.prems by simp
    ultimately show ?thesis
      using Cons split_lines_line [of x "join nl xs @ 10 # s"] by (simp add: nl_def)
  qed
qed

lemma property_line_explicit:
  "property_line =
     (\<lambda>(k, v). js ''  '' @ k @ js '': '' @
        (case ptype v of None \<Rightarrow> js ''undefined'' | Some ty \<Rightarrow> ty) @ js ''; // '' @
        (case pdescription v of None \<Rightarrow> [] | Some d \<Rightarrow> d))"
  by (rule ext) (simp add: property_line_def interpolate_def or_empty_def split: prod.splits)

lemma js_no_newline:
  "10 \<notin> set (js ''namespace '')" "10 \<notin> set (js '' {'')" "10 \<notin> set (js ''}'')"
  "10 \<notin> set (js ''  /**'')" "10 \<notin> set (js ''   * '')" "10 \<notin> set (js ''   */'')"
  by (simp_all add: js_def)

text \<open>
  Claim C4 says that a parameter without a declared type is rendered with the token
  \<^verbatim>\<open>any\<close> and that the comment is left out when the description is empty. The
  parameter \<^verbatim>\<open>n\<close> of the declaration \<^verbatim>\<open>lookup\<close> has no type and the empty
  description: its line is \<^verbatim>\<open>  n: undefined; // \<close>, and the text \<^verbatim>\<open>any\<close> does not
  occur in the rendering.
\<close>

theorem untyped_parameter_line:
  "toolsToTypeScriptNamespace [lookup_tool] =
     Inr (js ''namespace lookup {\<newline>  q: string; // Query\<newline>  n: undefined; // \<newline>}'') \<and>
   \<not> sublist (js ''any'')
     (js ''namespace lookup {\<newline>  q: string; // Query\<newline>  n: undefined; // \<newline>}'')"
  by (simp add: toolsToTypeScriptNamespace_def namespace_block_def lookup_tool_def
      lookup_function_def lookup_properties_def property_line_def interpolate_def
      or_empty_def nl_def js_def sublist_code)

text \<open>
  Claim C4, amended. For a declaration with at least one parameter, where no name, type
  or description holds a newline, the rendered block has one line for each parameter, in
  the order of the entries, between the line that opens the namespace and the closing
  brace. The line is two spaces, the name, a colon and a space, the declared type as it
  is written (the text \<^verbatim>\<open>undefined\<close> when no type is declared), and the comment
  \<^verbatim>\<open>; // \<close> followed by the description (by nothing when there is none).
  \<^verbatim>\<open>convertToolsToTypeScript\<close> writes the same lines after a documentation comment.
\<close>

theorem one_line_per_parameter:
  assumes "func t = Some f" and "fparameters f = Some ps" and "properties ps = Some kvs"
    and "kvs \<noteq> []"
    and "\<forall>kv \<in> set kvs. 10 \<notin> set (property_line kv)"
    and "10 \<notin> set (fname f)" and "10 \<notin> set (or_empty (fdescription f))"
  shows "(\<exists>out. toolsToTypeScriptNamespace [t] = Inr out \<and>
            split_lines out =
              [js ''namespace '' @ fname f @ js '' {''] @
              map (\<lambda>(k, v). js ''  '' @ k @ js '': '' @
                     (case ptype v of None \<Rightarrow> js ''undefined'' | Some ty \<Rightarrow> ty) @
                     js ''; // '' @
                     (case pdescription v of None \<Rightarrow> [] | Some d \<Rightarrow> d)) kvs @
              [js ''}'']) \<and>
         (\<exists>out. convertToolsToTypeScript [t] = Inr out \<and>
            split_lines out =
              [js ''namespace '' @ fname f @ js '' {'', js ''  /**'',
               js ''   * '' @ or_empty (fdescription f), js ''   */''] @
              map (\<lambda>(k, v). js ''  '' @ k @ js '': '' @
                     (case ptype v of None \<Rightarrow> js ''undefined'' | Some ty \<Rightarrow> ty) @
                     js ''; // '' @
                     (case pdescription v of None \<Rightarrow> [] | Some d \<Rightarrow> d)) kvs @
              [js ''}''])"
proof -
  let ?h = "js ''namespace '' @ fname f @ js '' {''"
  let ?body = "join nl (map property_line kvs) @ 10 # js ''}''"
  have h: "10 \<notin> set ?h" using assms(6) by (simp add: js_no_newline)
  have ls: "\<forall>l \<in> set (map property_line kvs). 10 \<notin> set l"
    using assms(5) by simp
  have ne: "map property_line kvs \<noteq> []" using assms(4) by simp
  have body: "split_lines ?body = map property_line kvs @ [js ''}'']"
    using split_lines_join [OF ne ls, of "js ''}''"]
    by (simp add: split_lines_last js_no_newline)
  have 1: "toolsToTypeScriptNamespace [t] = Inr (?h @ 10 # ?body)"
    using assms(1-3) by (simp add: toolsToTypeScriptNamespace_def namespace_block_def nl_def)
  have s1: "split_lines (?h @ 10 # ?body) = [?h] @ map property_line kvs @ [js ''}'']"
    using split_lines_line [OF h] body by simp
  let ?d = "js ''   * '' @ or_empty (fdescription f)"
  have d: "10 \<notin> set ?d" using assms(7) by (simp add: js_no_newline)
  let ?o2 = "?h @ 10 # js ''  /**'' @ 10 # ?d @ 10 # js ''   */'' @ 10 # ?body"
  have 2: "convertToolsToTypeScript [t] = Inr ?o2"
    using assms(1-3) by (simp add: convertToolsToTypeScript_def namespace_block_doc_def nl_def)
  have s2: "split_lines ?o2 =
      [?h, js ''  /**'', ?d, js ''   */''] @ map property_line kvs @ [js ''}'']"
    using split_lines_line [OF h] split_lines_line [OF d]
      split_lines_line [of "js ''  /**''"] split_lines_line [of "js ''   */''"] body
    by (simp add: js_no_newline)
  from 1 s1 2 s2 show ?thesis
    unfolding property_line_explicit by simp
qed

text \<open>The declaration \<^verbatim>\<open>lookup\<close> with its two parameters.\<close>

theorem one_line_per_parameter_witness:
  "(\<exists>out. toolsToTypeScriptNamespace [lookup_tool] = Inr out \<and>
      split_lines out =
        [js ''namespace lookup {'', js ''  q: string; // Query'', js ''  n: undefined; // '',
         js ''}'']) \<and>
   (\<exists>out. convertToolsToTypeScript [lookup_tool] = Inr out \<and>
      split_lines out =
        [js ''namespace lookup {'', js ''  /**'', js ''   * Look up'', js ''   */'',
         js ''  q: string; // Query'', js ''  n: undefined; // '', js ''}''])"
  using one_line_per_parameter
    [of lookup_tool lookup_function "\<lparr>properties = Some lookup_properties\<rparr>" lookup_properties]
  by (simp add: lookup_tool_def lookup_function_def lookup_properties_def property_line_def
      interpolate_def or_empty_def js_def)

section \<open>The matcher on delimited text\<close>

text \<open>
  The lemmas of this section say where the matcher stops in a text that is cut by tags:
  a search passes over every position at which the pattern fails, and a lazy quantifier
  passes over every character before which its continuation fails.
\<close>

lemma prefix_drop_sublist: "prefix t (drop k p) \<Longrightarrow> sublist t p"
proof -
  assume "prefix t (drop k p)"
  then obtain ss where "drop k p = t @ ss" by (auto simp: prefix_def)
  then have "p = take k p @ t @ ss" by (metis append_take_drop_id)
  then show ?thesis unfolding sublist_def by blast
qed

lemma no_straddle:
  assumes "a \<notin> set t" and "\<not> sublist (a # t) p" and "k < length p"
  shows "\<not> prefix (a # t) (drop k p @ (a # t) @ rest)"
proof
  assume pr: "prefix (a # t) (drop k p @ (a # t) @ rest)"
  from assms(3) obtain q qs where q: "drop k p = q # qs"
    by (cases "drop k p") auto
  from pr have "prefix (a # t) (drop k p) \<or>
      (\<exists>us. a # t = drop k p @ us \<and> prefix us ((a # t) @ rest))"
    by (simp add: prefix_append)
  then show False
  proof
    assume "prefix (a # t) (drop k p)"
    then show False using assms(2) prefix_drop_sublist by blast
  next
    assume "\<exists>us. a # t = drop k p @ us \<and> prefix us ((a # t) @ rest)"
    then obtain us where us: "a # t = drop k p @ us" "prefix us ((a # t) @ rest)" by blast
    show False
    proof (cases us)
      case Nil
      with us have "prefix (a # t) (drop k p)" by simp
      then show False using assms(2) prefix_drop_sublist by blast
    next
      case (Cons u us')
      with us(2) have "u = a" by simp
      moreover from us(1) q Cons have "t = qs @ u # us'" by simp
      ultimately show False using assms(1) by simp
    qed
  qed
qed

lemma lazy_skip:
  assumes "\<forall>x \<in> set p. accepts c x"
    and "\<forall>k < length p. rmatch r (drop k p @ sfx) st caps = None"
  shows "rmatch (LazyStar c # r) (p @ sfx) st caps = rmatch (LazyStar c # r) sfx st caps"
  using assms
proof (induction p)
  case Nil
  then show ?case by simp
next
  case (Cons x xs)
  from Cons.prems(2) have 0: "rmatch r ((x # xs) @ sfx) st caps = None" by force
  have "\<forall>k < length xs. rmatch r (drop k xs @ sfx) st caps = None"
  proof (intro allI impI)
    fix k assume "k < length xs"
    then have "Suc k < length (x # xs)" by simp
    with Cons.prems(2) have "rmatch r (drop (Suc k) (x # xs) @ sfx) st caps = None" by blast
    then show "rmatch r (drop k xs @ sfx) st caps = None" by simp
  qed
  with Cons have "rmatch (LazyStar c # r) (xs @ sfx) st caps = rmatch (LazyStar c # r) sfx st caps"
    by simp
  with 0 Cons.prems(1) show ?case by simp
qed

lemma search_skip:
  assumes "\<forall>k < length p. rmatch pat (drop k p @ sfx) Map.empty Map.empty = None"
  shows "search pat (p @ sfx) = search pat sfx"
  using assms
proof (induction p)
  case Nil
  then show ?case by simp
next
  case (Cons x xs)
  from Cons.prems have 0: "rmatch pat ((x # xs) @ sfx) Map.empty Map.empty = None" by force
  have "\<forall>k < length xs. rmatch pat (drop k xs @ sfx) Map.empty Map.empty = None"
  proof (intro allI impI)
    fix k assume "k < length xs"
    then have "Suc k < length (x # xs)" by simp
    with Cons.prems have "rmatch pat (drop (Suc k) (x # xs) @ sfx) Map.empty Map.empty = None" by blast
    then show "rmatch pat (drop k xs @ sfx) Map.empty Map.empty = None" by simp
  qed
  with Cons.IH have "search pat (xs @ sfx) = search pat sfx" by simp
  with 0 show ?case by simp
qed

lemma search_hit:
  "rmatch pat s Map.empty Map.empty = Some res \<Longrightarrow> search pat s = Some res"
  by (cases s) auto

lemma search_lit_none:
  assumes "l \<noteq> []" and "\<not> sublist l s"
  shows "search (Lit l # r) s = None"
  using assms(2)
proof (induction s)
  case Nil
  with assms(1) show ?case by simp
next
  case (Cons x xs)
  then have "\<not> prefix l (x # xs)" "\<not> sublist l xs"
    by (auto simp: sublist_Cons_right)
  with Cons.IH show ?case by simp
qed

lemma skip_to_lit:
  assumes "a \<notin> set t" and "\<not> sublist (a # t) p" and "\<forall>x \<in> set p. accepts c x"
    and "rmatch r rest st caps = Some res"
  shows "rmatch (LazyStar c # Lit (a # t) # r) (p @ (a # t) @ rest) st caps = Some res"
proof -
  have "\<forall>k < length p. rmatch (Lit (a # t) # r) (drop k p @ (a # t) @ rest) st caps = None"
    using no_straddle [OF assms(1,2)] by simp
  then have "rmatch (LazyStar c # Lit (a # t) # r) (p @ (a # t) @ rest) st caps =
      rmatch (LazyStar c # Lit (a # t) # r) ((a # t) @ rest) st caps"
    using assms(3) by (rule lazy_skip [rotated])
  also have "\<dots> = Some res"
    using assms(4) by simp
  finally show ?thesis .
qed

lemma capture_to_lit:
  assumes "a \<notin> set t" and "\<not> sublist (a # t) p" and "\<forall>x \<in> set p. accepts c x"
    and "rmatch r rest (st(n \<mapsto> p @ (a # t) @ rest)) (caps(n \<mapsto> p)) = Some res"
  shows "rmatch (GroupOpen n # LazyStar c # GroupClose n # Lit (a # t) # r)
           (p @ (a # t) @ rest) st caps = Some res"
proof -
  let ?full = "p @ (a # t) @ rest"
  let ?st = "st(n \<mapsto> ?full)"
  have "\<forall>k < length p. rmatch (GroupClose n # Lit (a # t) # r) (drop k p @ (a # t) @ rest) ?st caps = None"
    using no_straddle [OF assms(1,2)] by simp
  then have "rmatch (LazyStar c # GroupClose n # Lit (a # t) # r) ?full ?st caps =
      rmatch (LazyStar c # GroupClose n # Lit (a # t) # r) ((a # t) @ rest) ?st caps"
    using assms(3) by (rule lazy_skip [rotated])
  also have "\<dots> = Some res"
    using assms(4) by simp
  finally show ?thesis by simp
qed

text \<open>
  A lazy quantifier in front of a tag stops at the first place where the tag stands: when
  the text before the tag does not hold the tag and the rest of the pattern matches after
  it, the quantifier takes exactly that text.
\<close>

lemma lit_step [simp]: "rmatch (Lit l # r) (l @ s) st caps = rmatch r s st caps"
  by simp

lemma skip_to_tag:
  assumes "lead_unique T" and "\<not> sublist T p" and "\<forall>x \<in> set p. accepts c x"
    and "rmatch r rest st caps = Some res"
  shows "rmatch (LazyStar c # Lit T # r) (p @ T @ rest) st caps = Some res"
proof -
  from assms(1) obtain a t where T: "T = a # t" "a \<notin> set t"
    by (auto simp: lead_unique_def split: list.splits)
  from skip_to_lit [OF T(2) assms(2) [unfolded T(1)] assms(3) assms(4)]
  show ?thesis unfolding T(1) .
qed

lemma capture_to_tag:
  assumes "lead_unique T" and "\<not> sublist T p" and "\<forall>x \<in> set p. accepts c x"
    and "rmatch r rest (st(n \<mapsto> p @ T @ rest)) (caps(n \<mapsto> p)) = Some res"
  shows "rmatch (GroupOpen n # LazyStar c # GroupClose n # Lit T # r) (p @ T @ rest) st caps = Some res"
proof -
  from assms(1) obtain a t where T: "T = a # t" "a \<notin> set t"
    by (auto simp: lead_unique_def split: list.splits)
  from capture_to_lit [OF T(2) assms(2) [unfolded T(1)] assms(3) assms(4) [unfolded T(1)]]
  show ?thesis unfolding T(1) .
qed

lemma search_skip_tag:
  assumes "lead_unique T" and "\<not> sublist T gap"
  shows "search (Lit T # r) (gap @ T @ rest) = search (Lit T # r) (T @ rest)"
proof -
  from assms(1) obtain a t where T: "T = a # t" "a \<notin> set t"
    by (auto simp: lead_unique_def split: list.splits)
  have "\<forall>k < length gap. rmatch (Lit T # r) (drop k gap @ T @ rest) Map.empty Map.empty = None"
    using no_straddle [OF T(2) assms(2) [unfolded T(1)]] unfolding T(1) by simp
  then show ?thesis by (rule search_skip)
qed

section \<open>Tool calls\<close>

lemma tags_lead_unique:
  "lead_unique (js ''<tool_call>'')" "lead_unique (js ''<tool_name>'')"
  "lead_unique (js ''</tool_name>'')" "lead_unique (js ''<parameters>'')"
  "lead_unique (js ''</parameters>'')" "lead_unique (js ''</tool_call>'')"
  "lead_unique channel_boundary"
  by (simp_all add: lead_unique_def js_def channel_boundary_def)

lemma block_match:
  assumes "complete_block b"
  shows "rmatch tool_re (block_text b @ rest) Map.empty Map.empty =
           Some ([1 \<mapsto> block_name b, 2 \<mapsto> payload b], rest)"
proof -
  have any: "\<forall>x \<in> set p. accepts AnyChar x" for p by simp
  have nlt: "\<forall>x \<in> set (block_name b). accepts NotLineTerminator x"
    using assms by (simp add: complete_block_def)
  note cb = assms [unfolded complete_block_def]
  show ?thesis
    unfolding tool_re_def block_text_def append_assoc lit_step
    apply (rule skip_to_tag [OF tags_lead_unique(2) _ any])
    using cb apply blast
    apply (rule capture_to_tag [OF tags_lead_unique(3) _ nlt])
    using cb apply blast
    apply (rule skip_to_tag [OF tags_lead_unique(4) _ any])
    using cb apply blast
    apply (rule capture_to_tag [OF tags_lead_unique(5) _ any])
    using cb apply blast
    apply (rule skip_to_tag [OF tags_lead_unique(6) _ any])
    using cb apply blast
    apply simp
    done
qed

lemma search_block:
  assumes "complete_block b" and "\<not> sublist (js ''<tool_call>'') gap"
  shows "search tool_re (gap @ block_text b @ rest) =
           Some ([1 \<mapsto> block_name b, 2 \<mapsto> payload b], rest)"
proof -
  obtain r where r: "tool_re = Lit (js ''<tool_call>'') # r"
    by (simp add: tool_re_def)
  obtain u where u: "block_text b @ rest = js ''<tool_call>'' @ u"
    by (simp add: block_text_def)
  have "search tool_re (gap @ block_text b @ rest) = search tool_re (block_text b @ rest)"
    unfolding r u by (rule search_skip_tag [OF tags_lead_unique(1) assms(2)])
  also have "\<dots> = Some ([1 \<mapsto> block_name b, 2 \<mapsto> payload b], rest)"
    using block_match [OF assms(1)] by (rule search_hit)
  finally show ?thesis .
qed

lemma search_tool_none:
  assumes "\<not> sublist (js ''<tool_call>'') s"
  shows "search tool_re s = None"
  unfolding tool_re_def using assms by (intro search_lit_none) (simp_all add: js_def)

lemma tool_loop_block:
  assumes "complete_block b" and "\<not> sublist (js ''<tool_call>'') gap"
  shows "tool_loop d (gap @ block_text b @ rest) acc =
           tool_loop d rest
             (case d (trim (payload b)) of
                None \<Rightarrow> acc
              | Some v \<Rightarrow> acc @ [\<lparr>name = trim (block_name b), parameters = v\<rparr>])"
  by (subst tool_loop.simps) (simp add: search_block [OF assms])

lemma tool_loop_none:
  "\<not> sublist (js ''<tool_call>'') s \<Longrightarrow> tool_loop d s acc = acc"
  by (subst tool_loop.simps) (simp add: search_tool_none)

lemma tool_loop_blocks:
  assumes "\<forall>(gap, b) \<in> set items. \<not> sublist (js ''<tool_call>'') gap \<and> complete_block b"
    and "\<not> sublist (js ''<tool_call>'') trailer"
  shows "tool_loop d (blocks_text items @ trailer) acc =
           acc @ List.map_filter
                   (\<lambda>(gap, b). case d (trim (payload b)) of
                                  None \<Rightarrow> None
                                | Some v \<Rightarrow> Some \<lparr>name = trim (block_name b), parameters = v\<rparr>)
                   items"
  using assms(1)
proof (induction items arbitrary: acc)
  case Nil
  then show ?case using assms(2) by (simp add: blocks_text_def tool_loop_none map_filter_simps)
next
  case (Cons it items)
  obtain gap b where it: "it = (gap, b)" by (cases it)
  from Cons.prems it have gb: "\<not> sublist (js ''<tool_call>'') gap" "complete_block b"
    and rest: "\<forall>(gap, b) \<in> set items. \<not> sublist (js ''<tool_call>'') gap \<and> complete_block b"
    by auto
  have "blocks_text (it # items) @ trailer = gap @ block_text b @ (blocks_text items @ trailer)"
    by (simp add: blocks_text_def it)
  then have "tool_loop d (blocks_text (it # items) @ trailer) acc =
      tool_loop d (blocks_text items @ trailer)
        (case d (trim (payload b)) of
           None \<Rightarrow> acc
         | Some v \<Rightarrow> acc @ [\<lparr>name = trim (block_name b), parameters = v\<rparr>])"
    using tool_loop_block [OF gb(2) gb(1)] by simp
  also note Cons.IH [OF rest]
  finally show ?case
    by (cases "d (trim (payload b))") (simp_all add: it map_filter_simps)
qed

lemma tool_loop_throwing_malformed:
  assumes "complete_block b" and "\<not> sublist (js ''<tool_call>'') gap"
    and "d (trim (payload b)) = None"
  shows "tool_loop_throwing d (gap @ block_text b @ rest) acc = Inl SyntaxError"
  by (subst tool_loop_throwing.simps) (simp add: search_block [OF assms(1,2)] assms(3))

section \<open>Channels\<close>

lemma no_straddle_tag:
  assumes "lead_unique T" and "\<not> sublist T p" and "k < length p"
  shows "\<not> prefix T (drop k p @ T @ rest)"
proof -
  from assms(1) obtain a t where T: "T = a # t" "a \<notin> set t"
    by (auto simp: lead_unique_def split: list.splits)
  from no_straddle [OF T(2) assms(2) [unfolded T(1)] assms(3)] show ?thesis
    unfolding T(1) .
qed

lemma no_early:
  assumes "M \<noteq> []" and "\<not> sublist M (pre @ butlast M)" and "k < length pre"
  shows "\<not> prefix M (drop k pre @ M @ rest)"
proof
  assume pr: "prefix M (drop k pre @ M @ rest)"
  let ?q = "drop k pre"
  from assms(1) have M: "M = butlast M @ [last M]" by simp
  have "drop k pre @ M @ rest = (?q @ butlast M) @ (last M # rest)"
    by (subst M) simp
  with pr have "prefix M ((?q @ butlast M) @ (last M # rest))" by simp
  then have "prefix M (?q @ butlast M) \<or>
      (\<exists>us. M = (?q @ butlast M) @ us \<and> prefix us (last M # rest))"
    by (simp only: prefix_append)
  moreover have "length ?q \<ge> 1" using assms(3) by simp
  ultimately have "prefix M (?q @ butlast M)"
  proof (elim disjE exE conjE)
    fix us assume us: "M = (?q @ butlast M) @ us"
    then have "length M = length ?q + length (butlast M) + length us"
      by (metis length_append)
    with \<open>length ?q \<ge> 1\<close> assms(1) have "us = []"
      by (cases us) (auto simp: Suc_leI)
    with us show "prefix M (?q @ butlast M)" by simp
  qed
  then have "prefix M (drop k (pre @ butlast M))" using assms(3) by simp
  then have "sublist M (pre @ butlast M)" by (rule prefix_drop_sublist)
  with assms(2) show False by contradiction
qed

lemma channel_match:
  assumes "\<not> sublist channel_boundary body" and "rest = [] \<or> prefix channel_boundary rest"
  shows "rmatch (channel_re ch) (channel_marker ch @ body @ rest) Map.empty Map.empty =
           Some ([1 \<mapsto> body], rest)"
proof -
  let ?k = "[GroupClose 1, Lookahead [ALit channel_boundary, AEnd]]"
  let ?st = "[1 \<mapsto> body @ rest]"
  have fail: "\<forall>k < length body. rmatch ?k (drop k body @ rest) ?st Map.empty = None"
  proof (intro allI impI)
    fix k assume k: "k < length body"
    have "\<not> prefix channel_boundary (drop k body @ rest)"
    proof (cases "rest = []")
      case True
      then show ?thesis using assms(1) prefix_drop_sublist by auto
    next
      case False
      with assms(2) obtain tail where "rest = channel_boundary @ tail"
        by (auto simp: prefix_def)
      then show ?thesis
        using no_straddle_tag [OF tags_lead_unique(7) assms(1) k] by simp
    qed
    moreover have "drop k body @ rest \<noteq> []" using k by simp
    ultimately show "rmatch ?k (drop k body @ rest) ?st Map.empty = None" by simp
  qed
  have "rmatch (LazyStar AnyChar # ?k) (body @ rest) ?st Map.empty =
      rmatch (LazyStar AnyChar # ?k) rest ?st Map.empty"
    by (rule lazy_skip) (use fail in simp_all)
  also have "\<dots> = Some ([1 \<mapsto> body], rest)"
    using assms(2) by auto
  finally show ?thesis
    by (simp add: channel_re_def)
qed

lemma channel_marker_not_Nil: "channel_marker ch \<noteq> []"
  by (simp add: channel_marker_def js_def)

lemma section_of_first:
  assumes "\<not> sublist (channel_marker ch) (pre @ butlast (channel_marker ch))"
    and "\<not> sublist channel_boundary body"
    and "rest = [] \<or> prefix channel_boundary rest"
  shows "section_of (pre @ channel_marker ch @ body @ rest) ch = Some (trim body)"
proof -
  have "\<forall>k < length pre.
      rmatch (channel_re ch) (drop k pre @ channel_marker ch @ body @ rest) Map.empty Map.empty = None"
    using no_early [OF channel_marker_not_Nil assms(1)] by (simp add: channel_re_def)
  then have "search (channel_re ch) (pre @ channel_marker ch @ body @ rest) =
      search (channel_re ch) (channel_marker ch @ body @ rest)"
    by (rule search_skip)
  also have "\<dots> = Some ([1 \<mapsto> body], rest)"
    using channel_match [OF assms(2,3)] by (rule search_hit)
  finally show ?thesis by (simp add: section_of_def)
qed

lemma parseHarmony_field:
  "channel_field c (parseHarmony d text) = section_of text (channel_literal c)"
  by (cases c) (simp_all add: parseHarmony_def Let_def)

lemma rmatch_keeps_caps:
  "rmatch p s st caps = Some (m, r) \<Longrightarrow> caps n \<noteq> None \<Longrightarrow> m n \<noteq> None"
proof (induction p s st caps rule: rmatch.induct)
  case (3 c r' s st caps)
  then show ?case
    by (cases "rmatch r' s st caps"; cases s) (auto split: if_splits)
qed (auto split: if_splits option.splits)

lemma star_close_sets:
  "rmatch (LazyStar c # GroupClose n # k) s st caps = Some (m, r) \<Longrightarrow> m n \<noteq> None"
proof (induction s)
  case Nil
  then show ?case
    by (auto split: option.splits dest: rmatch_keeps_caps [where n = n])
next
  case (Cons x xs)
  show ?case
  proof (cases "rmatch (GroupClose n # k) (x # xs) st caps")
    case None
    with Cons.prems have "rmatch (LazyStar c # GroupClose n # k) xs st caps = Some (m, r)"
      by (simp split: if_splits)
    then show ?thesis by (rule Cons.IH)
  next
    case (Some res)
    with Cons.prems have "rmatch (GroupClose n # k) (x # xs) st caps = Some (m, r)"
      by simp
    then show ?thesis
      by (auto split: option.splits dest: rmatch_keeps_caps [where n = n])
  qed
qed

lemma channel_re_group:
  assumes "search (channel_re ch) s = Some (m, r)"
  shows "m 1 \<noteq> None"
proof -
  from search_rest [OF assms] obtain k
    where "rmatch (channel_re ch) (drop k s) Map.empty Map.empty = Some (m, r)" by blast
  then have "rmatch [GroupOpen 1, LazyStar AnyChar, GroupClose 1,
        Lookahead [ALit channel_boundary, AEnd]]
      (drop (length (channel_marker ch)) (drop k s)) Map.empty Map.empty = Some (m, r)"
    unfolding channel_re_def rmatch.simps(2) by (simp only: option.simps split: if_splits)
  then have "rmatch (LazyStar AnyChar # GroupClose 1 # [Lookahead [ALit channel_boundary, AEnd]])
      (drop (length (channel_marker ch)) (drop k s))
      [1 \<mapsto> drop (length (channel_marker ch)) (drop k s)] Map.empty = Some (m, r)"
    unfolding rmatch.simps(4) .
  then show ?thesis by (rule star_close_sets)
qed

lemma match_group_trimmed_channel:
  "match_group_trimmed (channel_re ch) s = Inr (section_of s ch)"
proof (cases "search (channel_re ch) s")
  case None
  then show ?thesis by (simp add: match_group_trimmed_def section_of_def)
next
  case (Some res)
  obtain m r where res: "res = (m, r)" by (cases res)
  with Some channel_re_group have "m 1 \<noteq> None" by blast
  with Some res show ?thesis
    by (auto simp: match_group_trimmed_def section_of_def)
qed

lemma parseHarmonyResponse_sections:
  "parseHarmonyResponse d text =
     (case tool_loop_throwing d text [] of
        Inl e \<Rightarrow> Inl e
      | Inr calls \<Rightarrow>
          Inr \<lparr>analysis = section_of text (js ''analysis''),
               commentary = section_of text (js ''commentary''),
               final = section_of text (js ''final''),
               toolCalls = (if calls \<noteq> [] then Some calls else None)\<rparr>)"
  by (simp add: parseHarmonyResponse_def match_group_trimmed_channel)

lemma parseHarmonyResponse_field:
  "parseHarmonyResponse d text = Inr r \<Longrightarrow> channel_field c r = section_of text (channel_literal c)"
  by (cases c) (auto simp: parseHarmonyResponse_sections split: sum.splits)

lemma marker_boundary: "sublist (channel_marker ch) s \<Longrightarrow> sublist channel_boundary s"
proof -
  assume "sublist (channel_marker ch) s"
  then obtain ps ss where "s = ps @ channel_marker ch @ ss" by (auto simp: sublist_def)
  moreover have "channel_marker ch = channel_boundary @ (62 # ch @ js ''<|end|>'')"
    by (simp add: channel_marker_def channel_boundary_def js_def)
  ultimately have "s = ps @ channel_boundary @ ((62 # ch @ js ''<|end|>'') @ ss)" by simp
  then show ?thesis unfolding sublist_def by blast
qed

lemma wire_text:
  "encodeHarmonyConversation [\<lparr>role = js ''assistant'', content = cont, channel = Some (channel_literal c)\<rparr>] =
     js ''<|start|><|message|>assistant'' @ channel_marker (channel_literal c) @ cont"
  by (cases c)
     (simp_all add: encodeHarmonyConversation_def renderHarmonyMessage_def channel_marker_def
        TOKENS_START_def TOKENS_MESSAGE_def TOKENS_CHANNEL_def TOKENS_END_def js_def)

lemma header_first:
  "\<not> sublist (channel_marker (channel_literal c))
       (js ''<|start|><|message|>assistant'' @ butlast (channel_marker (channel_literal c)))"
  by (cases c) (simp_all add: channel_marker_def js_def sublist_code)

lemma other_channel_skip:
  "c' \<noteq> c \<Longrightarrow>
   search (channel_re (channel_literal c'))
     (js ''<|start|><|message|>assistant'' @ channel_marker (channel_literal c) @ cont) =
   search (channel_re (channel_literal c')) cont"
  by (cases c; cases c') (simp_all add: channel_re_def channel_marker_def js_def)

text \<open>
  Claim C9 says that the field holds the text from the first marker to the next
  channel-boundary token, which is \<^verbatim>\<open><|channel|>\<close>. The lookahead of the pattern is
  \<^verbatim>\<open><|channel|\<close>, without the closing \<^verbatim>\<open>>\<close>: in the response below the text between
  the first marker and the next token is \<^verbatim>\<open>first <|channel|second \<close>, which holds no
  token, and the field is \<^verbatim>\<open>first\<close>.
\<close>

theorem boundary_without_closing:
  "open_boundary_response =
     channel_marker (js ''analysis'') @ js ''first <|channel|second '' @ TOKENS_CHANNEL @
     js ''analysis<|end|>third'' \<and>
   \<not> sublist TOKENS_CHANNEL (js ''first <|channel|second '') \<and>
   trim (js ''first <|channel|second '') = js ''first <|channel|second'' \<and>
   analysis (parseHarmony example_json_parse open_boundary_response) = Some (js ''first'')"
  unfolding open_boundary_response_def by code_simp

text \<open>
  Claim C9, amended. Let the marker of a channel stand after \<open>pre\<close> and begin nowhere
  inside \<open>pre\<close>, so that this is its first occurrence, and let \<open>body\<close> be the text
  from there to the next \<^verbatim>\<open><|channel|\<close>, the channel-boundary token without its
  closing \<^verbatim>\<open>>\<close>, or to the end of the response. Then the field of the channel is the
  trimmed \<open>body\<close>, whatever follows: later markers of the same channel change
  nothing. This holds for \<^verbatim>\<open>parseHarmony\<close> and for every result that
  \<^verbatim>\<open>parseHarmonyResponse\<close> returns.
\<close>

theorem first_occurrence_only:
  assumes "\<not> sublist (channel_marker (channel_literal c))
               (pre @ butlast (channel_marker (channel_literal c)))"
    and "\<not> sublist channel_boundary body"
    and "rest = [] \<or> prefix channel_boundary rest"
  shows "channel_field c
           (parseHarmony json_parse (pre @ channel_marker (channel_literal c) @ body @ rest)) =
           Some (trim body) \<and>
         (\<forall>r. parseHarmonyResponse json_parse
                 (pre @ channel_marker (channel_literal c) @ body @ rest) = Inr r \<longrightarrow>
              channel_field c r = Some (trim body))"
  using section_of_first [OF assms]
  by (simp add: parseHarmony_field parseHarmonyResponse_field)

text \<open>The response with two analysis channels: the field holds the first.\<close>

lemma repeated_analysis_response:
  "parseHarmonyResponse example_json_parse repeated_analysis =
     Inr \<lparr>analysis = Some (js ''first''), commentary = None, final = None, toolCalls = None\<rparr>"
  unfolding repeated_analysis_def by code_simp

theorem first_occurrence_only_witness:
  "\<not> sublist (channel_marker (js ''analysis'')) ([] @ butlast (channel_marker (js ''analysis''))) \<and>
   \<not> sublist channel_boundary (js ''first'') \<and>
   prefix channel_boundary (js ''<|channel|>analysis<|end|>second'') \<and>
   analysis (parseHarmony example_json_parse repeated_analysis) = Some (js ''first'') \<and>
   (\<exists>r. parseHarmonyResponse example_json_parse repeated_analysis = Inr r \<and>
        analysis r = Some (js ''first''))"
proof -
  have t: "repeated_analysis =
      [] @ channel_marker (channel_literal Analysis) @ js ''first'' @
      js ''<|channel|>analysis<|end|>second''"
    by (simp add: repeated_analysis_def channel_marker_def js_def)
  have h1: "\<not> sublist (channel_marker (channel_literal Analysis))
      ([] @ butlast (channel_marker (channel_literal Analysis)))"
    by (simp add: channel_marker_def js_def sublist_code)
  have h2: "\<not> sublist channel_boundary (js ''first'')"
    by (simp add: channel_boundary_def js_def sublist_code)
  have h3: "js ''<|channel|>analysis<|end|>second'' = [] \<or>
      prefix channel_boundary (js ''<|channel|>analysis<|end|>second'')"
    by (simp add: channel_boundary_def js_def)
  have tr: "trim (js ''first'') = js ''first''"
    by (simp add: trim_def trimmable_def is_white_space_def is_line_terminator_def js_def)
  from first_occurrence_only [OF h1 h2 h3, of example_json_parse, folded t]
    repeated_analysis_response h1 h2 h3 tr
  show ?thesis by (simp add: channel_boundary_def js_def)
qed

text \<open>
  Claim C1, amended. For an assistant turn with one of the three channels whose content
  does not hold the text \<^verbatim>\<open><|channel|\<close>, parsing the encoded turn gives the trimmed
  content in the field of that channel and leaves the fields of the other two channels
  absent.
\<close>

theorem round_trip:
  assumes "\<not> sublist channel_boundary cont"
  shows "channel_field c
           (parseHarmony json_parse
              (encodeHarmonyConversation
                 [\<lparr>role = js ''assistant'', content = cont,
                   channel = Some (channel_literal c)\<rparr>])) = Some (trim cont) \<and>
         (\<forall>c'. c' \<noteq> c \<longrightarrow>
            channel_field c'
              (parseHarmony json_parse
                 (encodeHarmonyConversation
                    [\<lparr>role = js ''assistant'', content = cont,
                      channel = Some (channel_literal c)\<rparr>])) = None)"
proof -
  have own: "section_of (js ''<|start|><|message|>assistant'' @
      channel_marker (channel_literal c) @ cont @ []) (channel_literal c) = Some (trim cont)"
    by (rule section_of_first [OF header_first assms]) simp
  have other: "section_of (js ''<|start|><|message|>assistant'' @
      channel_marker (channel_literal c) @ cont) (channel_literal c') = None" if "c' \<noteq> c" for c'
  proof -
    have "\<not> sublist (channel_marker (channel_literal c')) cont"
      using assms marker_boundary by blast
    then have "search (channel_re (channel_literal c')) cont = None"
      by (simp add: channel_re_def search_lit_none channel_marker_not_Nil)
    then show ?thesis
      using other_channel_skip [OF that] by (simp add: section_of_def)
  qed
  from own other show ?thesis
    by (simp add: wire_text parseHarmony_field)
qed

text \<open>The turn of the specification: channel \<^verbatim>\<open>final\<close>, content \<^verbatim>\<open>Here's the answer\<close>.\<close>

theorem round_trip_witness:
  "\<not> sublist channel_boundary (js ''Here's the answer'') \<and>
   final (parseHarmony example_json_parse
            (encodeHarmonyConversation
               [\<lparr>role = js ''assistant'', content = js ''Here's the answer'',
                 channel = Some (js ''final'')\<rparr>])) = Some (js ''Here's the answer'') \<and>
   analysis (parseHarmony example_json_parse
            (encodeHarmonyConversation
               [\<lparr>role = js ''assistant'', content = js ''Here's the answer'',
                 channel = Some (js ''final'')\<rparr>])) = None \<and>
   commentary (parseHarmony example_json_parse
            (encodeHarmonyConversation
               [\<lparr>role = js ''assistant'', content = js ''Here's the answer'',
                 channel = Some (js ''final'')\<rparr>])) = None"
proof -
  have h: "\<not> sublist channel_boundary (js ''Here's the answer'')"
    by (simp add: channel_boundary_def js_def sublist_code)
  have tr: "trim (js ''Here's the answer'') = js ''Here's the answer''"
    by (simp add: trim_def trimmable_def is_white_space_def is_line_terminator_def js_def)
  from round_trip [OF h, of Final example_json_parse] have
    a: "channel_field Final (parseHarmony example_json_parse
            (encodeHarmonyConversation
               [\<lparr>role = js ''assistant'', content = js ''Here's the answer'',
                 channel = Some (channel_literal Final)\<rparr>])) = Some (trim (js ''Here's the answer''))"
    and b: "\<And>c'. c' \<noteq> Final \<Longrightarrow> channel_field c' (parseHarmony example_json_parse
            (encodeHarmonyConversation
               [\<lparr>role = js ''assistant'', content = js ''Here's the answer'',
                 channel = Some (channel_literal Final)\<rparr>])) = None"
    by blast+
  from a b [of Analysis] b [of Commentary] h tr show ?thesis by simp
qed

text \<open>
  Claim C1 says that the round trip gives back the trimmed content of every assistant
  turn with a known channel. The capture of the parser ends at the first
  \<^verbatim>\<open><|channel|\<close>, and the encoder writes the content as it is: for the content
  \<^verbatim>\<open>The <|channel|> token opens a channel\<close> the field \<^verbatim>\<open>final\<close> is \<^verbatim>\<open>The\<close>.
\<close>

theorem round_trip_boundary_in_content:
  "final (parseHarmony example_json_parse (encodeHarmonyConversation [boundary_turn])) =
     Some (js ''The'') \<and>
   final (parseHarmony example_json_parse (encodeHarmonyConversation [boundary_turn])) \<noteq>
     Some (trim (content boundary_turn))"
  unfolding boundary_turn_def by code_simp

text \<open>
  Claim C5 says that of two blocks of which one is malformed the other is returned. The
  pattern ends the payload at the first \<^verbatim>\<open></parameters>\<close> and looks for the tags
  anywhere in the text: when the payload of the well-formed block quotes
  \<^verbatim>\<open></parameters>\<close> the payload is cut off at the quote and does not decode, and when
  the malformed block lacks its \<^verbatim>\<open></parameters>\<close> the match runs on into the next
  block. In both responses no request is returned.
\<close>

theorem tag_text_loses_call:
  "toolCalls (parseHarmony example_json_parse quoted_tag_response) = None \<and>
   toolCalls (parseHarmony example_json_parse unclosed_parameters_response) = None"
  unfolding quoted_tag_response_def unclosed_parameters_response_def by code_simp

text \<open>
  Claim C5, amended. For a response made of complete tool-call blocks, each after a text
  without an opening tag, \<^verbatim>\<open>parseHarmony\<close> returns one request for each block whose
  payload decodes, in the order of the blocks, with the trimmed name and the decoded
  payload; a block whose payload does not decode adds nothing and moves nothing. The field
  stays absent when no payload decodes.
\<close>

theorem tool_calls_in_order:
  assumes "\<forall>(gap, b) \<in> set items. \<not> sublist (js ''<tool_call>'') gap \<and> complete_block b"
    and "\<not> sublist (js ''<tool_call>'') trailer"
  shows "toolCalls (parseHarmony json_parse (blocks_text items @ trailer)) =
           (let calls = List.map_filter
                  (\<lambda>(gap, b). case json_parse (trim (payload b)) of
                                 None \<Rightarrow> None
                               | Some v \<Rightarrow> Some \<lparr>name = trim (block_name b), parameters = v\<rparr>)
                  items
            in if calls = [] then None else Some calls)"
  using tool_loop_blocks [OF assms, of json_parse "[]"]
  by (simp add: parseHarmony_def Let_def)

text \<open>
  The response of the specification: a block with the payload \<^verbatim>\<open>{not json\<close>, then the
  block of \<^verbatim>\<open>get_time\<close> with the payload \<^verbatim>\<open>{"x": 1}\<close>.
\<close>

lemma example_blocks_complete:
  "complete_block malformed_block" "complete_block get_time_block"
  by (simp_all add: complete_block_def malformed_block_def get_time_block_def nl_def js_def
      sublist_code is_line_terminator_def)

lemma example_payloads:
  "trim (payload malformed_block) = js ''{not json''"
  "trim (payload get_time_block) = js ''{\"x\": 1}''"
  "trim (block_name get_time_block) = js ''get_time''"
  by (simp_all add: malformed_block_def get_time_block_def trim_def trimmable_def
      is_white_space_def is_line_terminator_def nl_def js_def)

lemma example_decodes:
  "example_json_parse (js ''{not json'') = None"
  "example_json_parse (js ''{\"x\": 1}'') = Some [(js ''x'', 1)]"
  by (simp_all add: example_json_parse_def js_def)

theorem tool_calls_in_order_witness:
  "(\<not> sublist (js ''<tool_call>'') [] \<and> complete_block malformed_block) \<and>
   (\<not> sublist (js ''<tool_call>'') nl \<and> complete_block get_time_block) \<and>
   \<not> sublist (js ''<tool_call>'') [] \<and>
   toolCalls (parseHarmony example_json_parse mixed_response) =
     Some [\<lparr>name = js ''get_time'', parameters = [(js ''x'', 1)]\<rparr>]"
proof -
  have t: "mixed_response = blocks_text [([], malformed_block), (nl, get_time_block)] @ []"
    by (simp add: mixed_response_def blocks_text_def block_text_def malformed_block_def
        get_time_block_def nl_def js_def)
  have g: "\<not> sublist (js ''<tool_call>'') []" "\<not> sublist (js ''<tool_call>'') nl"
    by (simp_all add: nl_def js_def sublist_code)
  have h: "\<forall>(gap, b) \<in> set [([], malformed_block), (nl, get_time_block)].
      \<not> sublist (js ''<tool_call>'') gap \<and> complete_block b"
    using g example_blocks_complete by simp
  from tool_calls_in_order [OF h g(1), of example_json_parse, folded t]
  show ?thesis
    using g example_blocks_complete
    by (simp add: map_filter_simps example_payloads example_decodes)
qed

text \<open>
  A complete block whose payload does not decode: \<^verbatim>\<open>parseHarmony\<close> leaves it out,
  the exception of \<^verbatim>\<open>JSON.parse\<close> ends \<^verbatim>\<open>parseHarmonyResponse\<close>.
\<close>

lemma parseHarmonyResponse_malformed:
  assumes "complete_block b" and "\<not> sublist (js ''<tool_call>'') gap"
    and "json_parse (trim (payload b)) = None"
  shows "parseHarmonyResponse json_parse (gap @ block_text b @ rest) = Inl SyntaxError"
  using tool_loop_throwing_malformed [where d = json_parse, OF assms, of rest "[]"]
  by (simp add: parseHarmonyResponse_sections)

lemma parseHarmony_malformed:
  assumes "complete_block b" and "\<not> sublist (js ''<tool_call>'') gap"
    and "\<not> sublist (js ''<tool_call>'') trailer"
    and "json_parse (trim (payload b)) = None"
  shows "toolCalls (parseHarmony json_parse (gap @ block_text b @ trailer)) = None"
proof -
  have "tool_loop json_parse (gap @ block_text b @ trailer) [] = []"
    using tool_loop_block [OF assms(1,2), of json_parse trailer "[]"] assms(4)
    by (simp add: tool_loop_none [OF assms(3)])
  then show ?thesis by (simp add: parseHarmony_def Let_def)
qed

text \<open>
  Claim C2. For every response in which a complete tool-call block with a payload that
  \<^verbatim>\<open>JSON.parse\<close> rejects is the only block: \<^verbatim>\<open>parseHarmony\<close> returns with no tool
  call, and \<^verbatim>\<open>parseHarmonyResponse\<close>, whose loop has no \<^verbatim>\<open>try\<close>, lets the
  SyntaxError reach the caller.
\<close>

theorem malformed_call_escapes:
  assumes "complete_block b" and "\<not> sublist (js ''<tool_call>'') gap"
    and "\<not> sublist (js ''<tool_call>'') trailer"
    and "json_parse (trim (payload b)) = None"
  shows "toolCalls (parseHarmony json_parse (gap @ block_text b @ trailer)) = None \<and>
         parseHarmonyResponse json_parse (gap @ block_text b @ trailer) = Inl SyntaxError"
  using parseHarmony_malformed [where json_parse = json_parse, OF assms]
    parseHarmonyResponse_malformed [where json_parse = json_parse, OF assms(1,2,4), of trailer]
  by simp

text \<open>The response that is the one block with the payload \<^verbatim>\<open>{not json\<close>.\<close>

theorem malformed_call_escapes_witness:
  "complete_block malformed_block \<and>
   \<not> sublist (js ''<tool_call>'') [] \<and>
   example_json_parse (trim (payload malformed_block)) = None \<and>
   toolCalls (parseHarmony example_json_parse malformed_response) = None \<and>
   parseHarmonyResponse example_json_parse malformed_response = Inl SyntaxError"
proof -
  have t: "malformed_response = [] @ block_text malformed_block @ []"
    by (simp add: malformed_response_def block_text_def malformed_block_def nl_def js_def)
  have g: "\<not> sublist (js ''<tool_call>'') []"
    by (simp add: js_def)
  have d: "example_json_parse (trim (payload malformed_block)) = None"
    by (simp add: example_payloads example_decodes)
  from malformed_call_escapes
    [where json_parse = example_json_parse, OF example_blocks_complete(1) g g d, folded t]
  show ?thesis
    using example_blocks_complete(1) g d by simp
qed

end
